theory Spec2Isabelle
  imports Main "HOL-Library.Word"
begin

section \<open>The dnode message processor (src/dnode/dnode.go)\<close>

text \<open>
  The Go package keeps its registries in maps, which are reference values, and hands
  out pointers to \<^verbatim>\<open>Dnode\<close> structs. The embedding therefore uses an explicit store:
  one heap for the \<^verbatim>\<open>map[string]reflect.Value\<close> objects, one for the
  \<^verbatim>\<open>map[uint64]reflect.Value\<close> objects and one for the \<^verbatim>\<open>Dnode\<close> structs.
  Every operation takes the store and returns it updated. A Go panic is a value of the
  result type, together with the store as it stands when the panic is raised.
\<close>

subsection \<open>Values of package reflect\<close>

text \<open>
  \<^verbatim>\<open>reflect.Kind\<close>, in the order of the Go declaration. \<^verbatim>\<open>Int\<close> is written
  \<open>IntKind\<close> because \<open>Int\<close> is HOL's notation for intersection.
\<close>

datatype Kind =
    Invalid | Bool | IntKind | Int8 | Int16 | Int32 | Int64
  | Uint | Uint8 | Uint16 | Uint32 | Uint64 | Uintptr
  | Float32 | Float64 | Complex64 | Complex128
  | Array | Chan | Func | Interface | Map | Pointer | Slice | String | Struct
  | UnsafePointer

text \<open>
  A \<^verbatim>\<open>reflect.Value\<close>: the kind of the underlying Go value and a number that names
  the value itself (for a func, its code and closure).
\<close>

record Value =
  Kind_of :: Kind
  ident :: nat

text \<open>
  A value of type \<^verbatim>\<open>interface{}\<close>: \<open>None\<close> is the nil interface; a non-nil interface
  is given by the reflection of the value it holds.
\<close>

type_synonym interface = "Value option"

text \<open>\<^verbatim>\<open>reflect.ValueOf\<close>: the zero Value, of kind Invalid, for the nil interface.\<close>

definition ValueOf :: "interface \<Rightarrow> Value" where
  "ValueOf i = (case i of None \<Rightarrow> \<lparr>Kind_of = Invalid, ident = 0\<rparr> | Some v \<Rightarrow> v)"

subsection \<open>The Dnode struct and the store\<close>

type_synonym addr = nat

type_synonym bytes = "8 word list"

text \<open>
  A \<^verbatim>\<open>Transport\<close> is an interface implemented outside the package, and a
  \<^verbatim>\<open>Wrapper\<close> or \<^verbatim>\<open>Runner\<close> is a func value: each is modelled by a number naming
  the object, \<open>None\<close> being nil.
\<close>

type_synonym Transport = nat
type_synonym Wrapper = nat
type_synonym Runner = nat

text \<open>
  The struct of lines 17 to 38. The two map fields hold references into the store;
  \<open>None\<close> is the nil map of a zero \<^verbatim>\<open>Dnode\<close>.
\<close>

record Dnode =
  handlers :: "addr option"
  callbacks :: "addr option"
  seq :: "64 word"
  transport :: "Transport option"
  WrapMethodArgs :: "Wrapper option"
  WrapCallbackArgs :: "Wrapper option"
  RunMethod :: "Runner option"
  RunCallback :: "Runner option"

text \<open>
  The store. \<open>next_addr\<close> is the allocator: every object is created at the next unused
  address. \<open>ext\<close> is everything outside the package that a Transport or a handler can
  read and change (the network, buffers, the application's own state).
\<close>

record 'x state =
  hmaps :: "addr \<Rightarrow> (string \<rightharpoonup> Value)"
  cmaps :: "addr \<Rightarrow> (64 word \<rightharpoonup> Value)"
  dnodes :: "addr \<rightharpoonup> Dnode"
  next_addr :: addr
  ext :: 'x

text \<open>
  The panics of the package: \<^verbatim>\<open>panic(msg)\<close> with a string, and the two run-time
  errors the code can raise (assignment to an entry in a nil map, and the dereference
  of a nil pointer or nil interface).
\<close>

datatype panic = Panic string | NilMapAssignment | NilDereference

datatype ('a, 's) result =
    is_Returns: Returns (returned: 'a) (state_of: 's)
  | is_Panics: Panics (panic_of: panic) (state_of: 's)

text \<open>
  The Go index expressions \<^verbatim>\<open>m[k]\<close> in their two-valued form, through a map
  reference: a nil map has no entries.
\<close>

definition hindex :: "'x state \<Rightarrow> addr option \<Rightarrow> string \<Rightarrow> Value option" where
  "hindex s r k = (case r of None \<Rightarrow> None | Some a \<Rightarrow> hmaps s a k)"

definition cindex :: "'x state \<Rightarrow> addr option \<Rightarrow> 64 word \<Rightarrow> Value option" where
  "cindex s r k = (case r of None \<Rightarrow> None | Some a \<Rightarrow> cmaps s a k)"

text \<open>
  \<^verbatim>\<open>d.handlers[name]\<close> and \<^verbatim>\<open>d.callbacks[id]\<close> for a pointer \<open>d\<close>: what a lookup
  on the instance finds.
\<close>

definition lookup_handler :: "'x state \<Rightarrow> addr \<Rightarrow> string \<Rightarrow> Value option" where
  "lookup_handler s d name =
     (case dnodes s d of None \<Rightarrow> None | Some dn \<Rightarrow> hindex s (handlers dn) name)"

definition lookup_callback :: "'x state \<Rightarrow> addr \<Rightarrow> 64 word \<Rightarrow> Value option" where
  "lookup_callback s d k =
     (case dnodes s d of None \<Rightarrow> None | Some dn \<Rightarrow> cindex s (callbacks dn) k)"

subsection \<open>New and Copy\<close>

text \<open>
  Lines 75 to 81. The composite literal makes the two maps, then the struct is
  allocated; the fields not named are zero.
\<close>

definition New :: "Transport option \<Rightarrow> 'x state \<Rightarrow> addr \<times> 'x state" where
  "New tr s =
     (let h = next_addr s; c = h + 1; p = h + 2 in
      (p, s\<lparr>hmaps := (hmaps s)(h := Map.empty),
            cmaps := (cmaps s)(c := Map.empty),
            dnodes := (dnodes s)(p \<mapsto>
              \<lparr>handlers = Some h, callbacks = Some c, seq = 0, transport = tr,
               WrapMethodArgs = None, WrapCallbackArgs = None,
               RunMethod = None, RunCallback = None\<rparr>),
            next_addr := h + 3\<rparr>))"

text \<open>
  Lines 84 to 94. Reading \<^verbatim>\<open>d.handlers\<close> through a nil \<open>d\<close> panics. The handlers
  field of the new struct is the reference held by \<open>d\<close>, not a new map.
\<close>

definition Copy :: "addr \<Rightarrow> Transport option \<Rightarrow> 'x state \<Rightarrow> (addr, 'x state) result" where
  "Copy d tr s =
     (case dnodes s d of
        None \<Rightarrow> Panics NilDereference s
      | Some dn \<Rightarrow>
          (let c = next_addr s; p = c + 1 in
           Returns p
             (s\<lparr>cmaps := (cmaps s)(c := Map.empty),
                dnodes := (dnodes s)(p \<mapsto>
                  \<lparr>handlers = handlers dn, callbacks = Some c, seq = 0, transport = tr,
                   WrapMethodArgs = WrapMethodArgs dn,
                   WrapCallbackArgs = WrapCallbackArgs dn,
                   RunMethod = RunMethod dn, RunCallback = RunCallback dn\<rparr>),
                next_addr := c + 2\<rparr>)))"

subsection \<open>HandleFunc\<close>

text \<open>
  Lines 98 to 114, check by check in the order of the source. The read of
  \<^verbatim>\<open>d.handlers\<close> on line 105 is the first use of \<open>d\<close>; the store on line 113 panics
  when the map is nil.
\<close>

definition HandleFunc ::
  "addr \<Rightarrow> string \<Rightarrow> interface \<Rightarrow> 'x state \<Rightarrow> (unit, 'x state) result" where
  "HandleFunc d method handler s =
     (if method = [] then Panics (Panic (''dnode: invalid method '' @ method)) s
      else if handler = None then Panics (Panic ''dnode: nil handler'') s
      else
        (case dnodes s d of
           None \<Rightarrow> Panics NilDereference s
         | Some dn \<Rightarrow>
             if hindex s (handlers dn) method \<noteq> None
             then Panics (Panic ''dnode: handler already exists for method'') s
             else
               (let val = ValueOf handler in
                if Kind_of val \<noteq> Func
                then Panics (Panic ''dnode: handler must be a func'') s
                else
                  (case handlers dn of
                     None \<Rightarrow> Panics NilMapAssignment s
                   | Some a \<Rightarrow>
                       Returns () (s\<lparr>hmaps := (hmaps s)(a := (hmaps s a)(method \<mapsto> val))\<rparr>)))))"

subsection \<open>RemoveCallback\<close>

text \<open>Lines 138 to 140. The builtin \<^verbatim>\<open>delete\<close> is a no-op on a nil map.\<close>

definition RemoveCallback ::
  "addr \<Rightarrow> 64 word \<Rightarrow> 'x state \<Rightarrow> (unit, 'x state) result" where
  "RemoveCallback d k s =
     (case dnodes s d of
        None \<Rightarrow> Panics NilDereference s
      | Some dn \<Rightarrow>
          (case callbacks dn of
             None \<Rightarrow> Returns () s
           | Some a \<Rightarrow> Returns () (s\<lparr>cmaps := (cmaps s)(a := (cmaps s a)(k := None))\<rparr>)))"

subsection \<open>Stores that the package builds\<close>

text \<open>
  The empty store, and the invariant of every store built from it by the operations
  above: what is allocated lies below the allocator.
\<close>

definition empty_state :: "'x \<Rightarrow> 'x state" where
  "empty_state x =
     \<lparr>hmaps = (\<lambda>a. Map.empty), cmaps = (\<lambda>a. Map.empty), dnodes = Map.empty,
      next_addr = 0, ext = x\<rparr>"

definition below :: "addr option \<Rightarrow> addr \<Rightarrow> bool" where
  "below r n = (case r of None \<Rightarrow> True | Some a \<Rightarrow> a < n)"

definition wf_state :: "'x state \<Rightarrow> bool" where
  "wf_state s =
     (\<forall>d dn. dnodes s d = Some dn \<longrightarrow>
        d < next_addr s \<and> below (handlers dn) (next_addr s)
        \<and> below (callbacks dn) (next_addr s))"

text \<open>
  A second invariant of those stores: no instance has a nil map. (A zero \<^verbatim>\<open>Dnode\<close>,
  which only code outside \<open>New\<close> and \<open>Copy\<close> can make, has two.)
\<close>

definition maps_made :: "'x state \<Rightarrow> bool" where
  "maps_made s =
     (\<forall>d dn. dnodes s d = Some dn \<longrightarrow> handlers dn \<noteq> None \<and> callbacks dn \<noteq> None)"

subsection \<open>Run\<close>

text \<open>
  \<^verbatim>\<open>Receive\<close> is a method of an interface implemented outside the package, and
  \<^verbatim>\<open>processMessage\<close> is a method of \<^verbatim>\<open>Dnode\<close> defined in another file of the
  package: both are parameters of the model. Each takes the store and gives a result,
  so each may change the store and the world outside, and each may panic. \<open>Receive\<close>
  gives the message and the error, \<open>None\<close> being the nil error.

  \<^verbatim>\<open>d.transport.Receive()\<close>, line 119: the field read panics on a nil \<open>d\<close>, the
  method call on a nil interface.
\<close>

definition transport_Receive ::
  "(Transport \<Rightarrow> 'x state \<Rightarrow> (bytes \<times> 'e option, 'x state) result) \<Rightarrow>
   addr \<Rightarrow> 'x state \<Rightarrow> (bytes \<times> 'e option, 'x state) result" where
  "transport_Receive Receive d s =
     (case dnodes s d of
        None \<Rightarrow> Panics NilDereference s
      | Some dn \<Rightarrow>
          (case transport dn of
             None \<Rightarrow> Panics NilDereference s
           | Some t \<Rightarrow> Receive t s))"

text \<open>
  What the loop does is recorded as it does it: an event when it reaches line 119 and
  asks the transport for a message, one when \<open>Receive\<close> returns, one when
  \<open>processMessage\<close> is called and one when it returns. The record is kept by the loop
  alone; the two parameters never see it.
\<close>

datatype 'e event =
    Receive_call
  | Receive_return bytes "'e option"
  | processMessage_call bytes
  | processMessage_return bytes

text \<open>
  Lines 117 to 134. The loop has no exit but the \<^verbatim>\<open>return err\<close> of line 121, so the
  function is partial: \<open>None\<close> is a loop that runs forever. What \<open>processMessage\<close>
  returns is dropped (line 132 is an expression statement); a panic in either call
  leaves \<open>Run\<close> as a panic, not as a return.
\<close>

partial_function (option) Run ::
  "(Transport \<Rightarrow> 'x state \<Rightarrow> (bytes \<times> 'e option, 'x state) result) \<Rightarrow>
   (addr \<Rightarrow> bytes \<Rightarrow> 'x state \<Rightarrow> ('r, 'x state) result) \<Rightarrow>
   addr \<Rightarrow> 'e event list \<Rightarrow> 'x state \<Rightarrow>
   (('e, 'x state) result \<times> 'e event list) option" where
  "Run Receive processMessage d log s =
     (case transport_Receive Receive d s of
        Panics p s1 \<Rightarrow> Some (Panics p s1, log @ [Receive_call])
      | Returns (msg, err) s1 \<Rightarrow>
          (case err of
             Some e \<Rightarrow> Some (Returns e s1, log @ [Receive_call, Receive_return msg err])
           | None \<Rightarrow>
               (case processMessage d msg s1 of
                  Panics p s2 \<Rightarrow>
                    Some (Panics p s2,
                          log @ [Receive_call, Receive_return msg None,
                                 processMessage_call msg])
                | Returns x s2 \<Rightarrow>
                    Run Receive processMessage d
                      (log @ [Receive_call, Receive_return msg None,
                              processMessage_call msg, processMessage_return msg])
                      s2)))"

text \<open>
  The events of one turn of the loop on message \<open>m\<close>, and what it means for the
  Transport to yield the messages \<open>ms\<close> in that order, each with a nil error, to a loop
  that has each one processed (the call returning) before it asks for the next:
  \<open>feed\<close> gives the store after the last of them.
\<close>

definition turn :: "bytes \<Rightarrow> 'e event list" where
  "turn m = [Receive_call, Receive_return m None, processMessage_call m, processMessage_return m]"

fun feed ::
  "(Transport \<Rightarrow> 'x state \<Rightarrow> (bytes \<times> 'e option, 'x state) result) \<Rightarrow>
   (addr \<Rightarrow> bytes \<Rightarrow> 'x state \<Rightarrow> ('r, 'x state) result) \<Rightarrow>
   addr \<Rightarrow> bytes list \<Rightarrow> 'x state \<Rightarrow> 'x state option" where
  "feed Receive processMessage d [] s = Some s"
| "feed Receive processMessage d (m # ms) s =
     (case transport_Receive Receive d s of
        Panics p s1 \<Rightarrow> None
      | Returns (msg, err) s1 \<Rightarrow>
          if msg = m \<and> err = None then
            (case processMessage d m s1 of
               Panics p s2 \<Rightarrow> None
             | Returns x s2 \<Rightarrow> feed Receive processMessage d ms s2)
          else None)"

text \<open>
  A Transport for concrete runs: the world outside is the list of what \<open>Receive\<close> is
  still to return, and \<open>Receive\<close> takes its head; a closed connection gives an error
  for ever. And a \<open>processMessage\<close> that fails on every message, returning an error.
\<close>

definition scripted_Receive ::
  "Transport \<Rightarrow> (bytes \<times> string option) list state \<Rightarrow>
   (bytes \<times> string option, (bytes \<times> string option) list state) result" where
  "scripted_Receive t s =
     (case ext s of
        [] \<Rightarrow> Returns ([], Some ''EOF'') s
      | r # rs \<Rightarrow> Returns r (s\<lparr>ext := rs\<rparr>))"

definition failing_processMessage ::
  "addr \<Rightarrow> bytes \<Rightarrow> 'x state \<Rightarrow> (string option, 'x state) result" where
  "failing_processMessage d msg s = Returns (Some ''dnode: method not found'') s"

subsection \<open>Callback ids\<close>





subsection \<open>The Message struct and its wire form\<close>












subsection \<open>Concrete values for worked runs\<close>

text \<open>
  A func value, a value that is not a func, and the store that holds one instance made
  by \<open>New\<close> on transport 7: its handlers map is at address 0, its callbacks map at 1
  and the struct at 2.
\<close>

definition a_func :: Value where
  "a_func = \<lparr>Kind_of = Func, ident = 1\<rparr>"

definition a_string :: Value where
  "a_string = \<lparr>Kind_of = String, ident = 2\<rparr>"

definition new_state :: "unit state" where
  "new_state = snd (New (Some 7) (empty_state ()))"

text \<open>
  The same store with callback 5 in the registry of the instance, and the store after
  that instance has been copied for transport 8: the copy's callbacks map is at
  address 3 and its struct at 4.
\<close>

definition with_callback :: "unit state" where
  "with_callback = new_state\<lparr>cmaps := (cmaps new_state)(1 := [5 \<mapsto> a_func])\<rparr>"

definition copied_state :: "unit state" where
  "copied_state = state_of (Copy 2 (Some 8) with_callback)"

text \<open>
  The store of one instance on a scripted transport: the struct is at address 2 and the
  world outside is the script.
\<close>

definition script_state ::
  "(bytes \<times> string option) list \<Rightarrow> (bytes \<times> string option) list state" where
  "script_state script = snd (New (Some 7) (empty_state script))"



section \<open>Properties\<close>

subsection \<open>The stores the package builds are well formed\<close>

lemma wf_empty_state: "wf_state (empty_state x)"
  by (simp add: wf_state_def empty_state_def)

lemma wf_New: "wf_state s \<Longrightarrow> wf_state (snd (New tr s))"
  unfolding wf_state_def New_def Let_def
  by (auto simp: below_def split: option.splits if_splits) (fastforce+)

lemma wf_Copy: "wf_state s \<Longrightarrow> wf_state (state_of (Copy d tr s))"
  unfolding wf_state_def Copy_def Let_def
  by (auto simp: below_def split: option.splits if_splits) (fastforce+)

lemma wf_HandleFunc: "wf_state s \<Longrightarrow> wf_state (state_of (HandleFunc d name handler s))"
  unfolding wf_state_def HandleFunc_def Let_def
  by (auto split: option.splits if_splits)

lemma wf_RemoveCallback: "wf_state s \<Longrightarrow> wf_state (state_of (RemoveCallback d k s))"
  unfolding wf_state_def RemoveCallback_def
  by (auto split: option.splits if_splits)

lemma new_state_dnode:
  "dnodes new_state 2 =
     Some \<lparr>handlers = Some 0, callbacks = Some 1, seq = 0, transport = Some 7,
           WrapMethodArgs = None, WrapCallbackArgs = None,
           RunMethod = None, RunCallback = None\<rparr>"
  by (simp add: new_state_def New_def empty_state_def Let_def)

lemma wf_new_state: "wf_state new_state"
  unfolding new_state_def by (rule wf_New [OF wf_empty_state])

lemma with_callback_dnode:
  "dnodes with_callback 2 =
     Some \<lparr>handlers = Some 0, callbacks = Some 1, seq = 0, transport = Some 7,
           WrapMethodArgs = None, WrapCallbackArgs = None,
           RunMethod = None, RunCallback = None\<rparr>"
  by (simp add: with_callback_def new_state_dnode)

lemma wf_with_callback: "wf_state with_callback"
  using wf_new_state by (simp add: wf_state_def with_callback_def)

lemma next_addr_new_state: "next_addr new_state = 3"
  by (simp add: new_state_def New_def empty_state_def Let_def)

text \<open>
  Every instance of such a store has both its maps made, which is what \<open>HandleFunc\<close>
  needs to register a handler.
\<close>

lemma maps_made_empty_state: "maps_made (empty_state x)"
  by (simp add: maps_made_def empty_state_def)

lemma maps_made_New: "maps_made s \<Longrightarrow> maps_made (snd (New tr s))"
  by (auto simp: maps_made_def New_def Let_def split: if_splits)

lemma maps_made_Copy: "maps_made s \<Longrightarrow> maps_made (state_of (Copy d tr s))"
  by (auto simp: maps_made_def Copy_def Let_def split: option.splits if_splits)

lemma maps_made_HandleFunc:
  "maps_made s \<Longrightarrow> maps_made (state_of (HandleFunc d name handler s))"
  by (auto simp: maps_made_def HandleFunc_def Let_def split: option.splits if_splits)

lemma maps_made_RemoveCallback:
  "maps_made s \<Longrightarrow> maps_made (state_of (RemoveCallback d k s))"
  by (auto simp: maps_made_def RemoveCallback_def split: option.splits if_splits)

subsection \<open>HandleFunc\<close>

text \<open>
  Claim C3. On an instance whose handlers map has been made (as \<open>New\<close> and \<open>Copy\<close> of
  such an instance do), \<open>HandleFunc\<close> panics exactly when the name is empty, the
  handler is nil, the handler's reflected kind is not \<open>Func\<close>, or the name is already
  registered. In every other case it returns, and a lookup of the name on the instance
  then finds the handler.
\<close>

theorem HandleFunc_panics_iff:
  assumes "dnodes s d = Some dn" and "handlers dn = Some h"
  shows "(is_Panics (HandleFunc d name handler s) \<longleftrightarrow>
            name = [] \<or> handler = None \<or> Kind_of (ValueOf handler) \<noteq> Func
            \<or> lookup_handler s d name \<noteq> None)
         \<and> (\<not> is_Panics (HandleFunc d name handler s) \<longrightarrow>
              is_Returns (HandleFunc d name handler s)
              \<and> handler \<noteq> None
              \<and> lookup_handler (state_of (HandleFunc d name handler s)) d name = handler)"
  using assms
  by (auto simp: HandleFunc_def lookup_handler_def hindex_def ValueOf_def Let_def
           split: option.splits)

theorem HandleFunc_panics_iff_witness:
  "is_Panics (HandleFunc 2 [] (Some a_func) new_state)
   \<and> is_Panics (HandleFunc 2 ''ping'' None new_state)
   \<and> is_Panics (HandleFunc 2 ''ping'' (Some a_string) new_state)
   \<and> is_Panics (HandleFunc 2 ''ping'' (Some a_func)
        (state_of (HandleFunc 2 ''ping'' (Some a_func) new_state)))
   \<and> is_Returns (HandleFunc 2 ''ping'' (Some a_func) new_state)
   \<and> lookup_handler (state_of (HandleFunc 2 ''ping'' (Some a_func) new_state)) 2 ''ping''
       = Some a_func"
proof -
  let ?dn = "\<lparr>handlers = Some 0, callbacks = Some 1, seq = 0, transport = Some 7,
           WrapMethodArgs = None, WrapCallbackArgs = None,
           RunMethod = None, RunCallback = None\<rparr>"
  let ?s = "state_of (HandleFunc 2 ''ping'' (Some a_func) new_state)"
  have look: "lookup_handler new_state 2 ''ping'' = None"
    by (simp add: lookup_handler_def new_state_dnode hindex_def)
       (simp add: new_state_def New_def empty_state_def Let_def)
  have d2: "dnodes ?s 2 = Some ?dn"
    by (simp add: HandleFunc_def new_state_dnode hindex_def a_func_def ValueOf_def Let_def)
  have k: "Kind_of (ValueOf (Some a_func)) = Func" "Kind_of (ValueOf (Some a_string)) \<noteq> Func"
    by (simp_all add: a_func_def a_string_def ValueOf_def)
  note t = HandleFunc_panics_iff [OF new_state_dnode, of 0]
  note t' = HandleFunc_panics_iff [OF d2, of 0]
  have ok: "\<not> is_Panics (HandleFunc 2 ''ping'' (Some a_func) new_state)"
    using t [of "''ping''" "Some a_func"] look k by simp
  have "lookup_handler ?s 2 ''ping'' = Some a_func"
    using t [of "''ping''" "Some a_func"] ok by simp
  moreover have "is_Returns (HandleFunc 2 ''ping'' (Some a_func) new_state)"
    using t [of "''ping''" "Some a_func"] ok by simp
  moreover have "is_Panics (HandleFunc 2 ''ping'' (Some a_func) ?s)"
    using t' [of "''ping''" "Some a_func"] calculation by simp
  moreover have "is_Panics (HandleFunc 2 [] (Some a_func) new_state)"
    using t [of "[]" "Some a_func"] by simp
  moreover have "is_Panics (HandleFunc 2 ''ping'' None new_state)"
    using t [of "''ping''" None] by simp
  moreover have "is_Panics (HandleFunc 2 ''ping'' (Some a_string) new_state)"
    using t [of "''ping''" "Some a_string"] k by simp
  ultimately show ?thesis by simp
qed

text \<open>
  Claim C8. \<open>HandleFunc\<close> is atomic with respect to failure: when it panics the store
  is the store before the call, so neither the handlers map nor any field of any
  instance has changed; when it returns, the store differs from the one before the
  call in one entry only, the given name (absent before) now mapped to the given
  handler in the handlers map of the instance.
\<close>

theorem HandleFunc_atomic:
  "(is_Panics (HandleFunc d name handler s) \<longrightarrow>
      state_of (HandleFunc d name handler s) = s)
   \<and> (is_Returns (HandleFunc d name handler s) \<longrightarrow>
        (\<exists>dn a. dnodes s d = Some dn \<and> handlers dn = Some a
           \<and> hmaps s a name = None
           \<and> state_of (HandleFunc d name handler s) =
               s\<lparr>hmaps := (hmaps s)(a := (hmaps s a)(name \<mapsto> ValueOf handler))\<rparr>))"
  by (auto simp: HandleFunc_def hindex_def Let_def split: option.splits)

theorem HandleFunc_atomic_witness:
  "is_Panics (HandleFunc 2 ''ping'' (Some a_string) new_state)
   \<and> state_of (HandleFunc 2 ''ping'' (Some a_string) new_state) = new_state
   \<and> is_Returns (HandleFunc 2 ''ping'' (Some a_func) new_state)
   \<and> state_of (HandleFunc 2 ''ping'' (Some a_func) new_state) =
       new_state\<lparr>hmaps := (hmaps new_state)(0 := (hmaps new_state 0)(''ping'' \<mapsto> a_func))\<rparr>"
proof -
  have look: "hindex new_state (Some 0) ''ping'' = None"
    by (simp add: hindex_def) (simp add: new_state_def New_def empty_state_def Let_def)
  have p: "is_Panics (HandleFunc 2 ''ping'' (Some a_string) new_state)"
    by (simp add: HandleFunc_def new_state_dnode look a_string_def ValueOf_def Let_def)
  have r: "is_Returns (HandleFunc 2 ''ping'' (Some a_func) new_state)"
    by (simp add: HandleFunc_def new_state_dnode look a_func_def ValueOf_def Let_def)
  show ?thesis
    using HandleFunc_atomic [of 2 "''ping''" "Some a_string" new_state]
      HandleFunc_atomic [of 2 "''ping''" "Some a_func" new_state] p r
    by (auto simp: new_state_dnode ValueOf_def)
qed

subsection \<open>RemoveCallback\<close>

text \<open>
  Claim C6. On an instance, \<open>RemoveCallback\<close> never panics. When the id is absent the
  store is left as it was; in general the id is absent afterwards and every other id
  resolves as before, so exactly that entry is removed; and removing the same id a
  second time changes nothing.
\<close>

theorem RemoveCallback_idempotent:
  assumes "dnodes s d = Some dn"
  shows "is_Returns (RemoveCallback d k s)
    \<and> (lookup_callback s d k = None \<longrightarrow> state_of (RemoveCallback d k s) = s)
    \<and> (\<forall>j. lookup_callback (state_of (RemoveCallback d k s)) d j =
             (if j = k then None else lookup_callback s d j))
    \<and> RemoveCallback d k (state_of (RemoveCallback d k s)) =
        Returns () (state_of (RemoveCallback d k s))"
proof (cases "callbacks dn")
  case None
  with assms show ?thesis
    by (simp add: RemoveCallback_def lookup_callback_def cindex_def)
next
  case (Some a)
  let ?s' = "s\<lparr>cmaps := (cmaps s)(a := (cmaps s a)(k := None))\<rparr>"
  have r: "RemoveCallback d k s = Returns () ?s'"
    using assms Some by (simp add: RemoveCallback_def)
  have same: "cmaps s a k = None \<Longrightarrow> ?s' = s"
    by (simp add: fun_upd_idem)
  have again: "RemoveCallback d k ?s' = Returns () ?s'"
    using assms Some by (simp add: RemoveCallback_def)
  show ?thesis
    using assms Some same again
    by (simp add: r lookup_callback_def cindex_def)
qed

theorem RemoveCallback_idempotent_witness:
  "lookup_callback with_callback 2 5 = Some a_func
   \<and> is_Returns (RemoveCallback 2 5 with_callback)
   \<and> lookup_callback (state_of (RemoveCallback 2 5 with_callback)) 2 5 = None
   \<and> state_of (RemoveCallback 2 6 with_callback) = with_callback
   \<and> RemoveCallback 2 5 (state_of (RemoveCallback 2 5 with_callback)) =
        Returns () (state_of (RemoveCallback 2 5 with_callback))"
proof -
  have a: "lookup_callback with_callback 2 5 = Some a_func"
    "lookup_callback with_callback 2 6 = None"
    by (simp_all add: lookup_callback_def with_callback_dnode cindex_def)
       (simp_all add: with_callback_def)
  show ?thesis
    using RemoveCallback_idempotent [OF with_callback_dnode, of 5]
      RemoveCallback_idempotent [OF with_callback_dnode, of 6] a
    by simp
qed

text \<open>
  Claim C10. \<open>RemoveCallback\<close> changes at most the callbacks map of the instance, and
  there at most the entry of the id: the handlers maps, every struct (so the sequence
  counter, the transport and the four hooks of every instance), the allocator and the
  world outside are as before, and so is every other entry of every callbacks map.
\<close>

theorem RemoveCallback_frame:
  "hmaps (state_of (RemoveCallback d k s)) = hmaps s
   \<and> dnodes (state_of (RemoveCallback d k s)) = dnodes s
   \<and> next_addr (state_of (RemoveCallback d k s)) = next_addr s
   \<and> ext (state_of (RemoveCallback d k s)) = ext s
   \<and> (\<forall>name. lookup_handler (state_of (RemoveCallback d k s)) d name = lookup_handler s d name)
   \<and> (\<forall>a j. (\<forall>dn. dnodes s d = Some dn \<longrightarrow> callbacks dn \<noteq> Some a) \<or> j \<noteq> k \<longrightarrow>
         cmaps (state_of (RemoveCallback d k s)) a j = cmaps s a j)"
  by (auto simp: RemoveCallback_def lookup_handler_def hindex_def split: option.splits)

theorem RemoveCallback_frame_witness:
  "lookup_callback with_callback 2 5 = Some a_func
   \<and> lookup_callback (state_of (RemoveCallback 2 5 with_callback)) 2 5 = None
   \<and> hmaps (state_of (RemoveCallback 2 5 with_callback)) = hmaps with_callback
   \<and> dnodes (state_of (RemoveCallback 2 5 with_callback)) = dnodes with_callback
   \<and> cmaps (state_of (RemoveCallback 2 5 with_callback)) 0 5 = cmaps with_callback 0 5
   \<and> cmaps (state_of (RemoveCallback 2 5 with_callback)) 1 4 = cmaps with_callback 1 4"
proof -
  have a: "lookup_callback with_callback 2 5 = Some a_func"
    by (simp add: lookup_callback_def with_callback_dnode cindex_def)
       (simp add: with_callback_def)
  have b: "lookup_callback (state_of (RemoveCallback 2 5 with_callback)) 2 5 = None"
    by (simp add: RemoveCallback_def lookup_callback_def with_callback_dnode cindex_def)
  have c: "\<forall>a j. (\<forall>dn. dnodes with_callback 2 = Some dn \<longrightarrow> callbacks dn \<noteq> Some a) \<or> j \<noteq> 5 \<longrightarrow>
         cmaps (state_of (RemoveCallback 2 5 with_callback)) a j = cmaps with_callback a j"
    using RemoveCallback_frame [of 2 5 with_callback] by blast
  have "cmaps (state_of (RemoveCallback 2 5 with_callback)) 0 5 = cmaps with_callback 0 5"
    using c [rule_format, of 0 5] by (simp add: with_callback_dnode)
  moreover have "cmaps (state_of (RemoveCallback 2 5 with_callback)) 1 4 = cmaps with_callback 1 4"
    using c [rule_format, of 1 4] by simp
  ultimately show ?thesis
    using RemoveCallback_frame [of 2 5 with_callback] a b by simp
qed

subsection \<open>Copy\<close>

text \<open>
  Claim C4. In a store built by the package, \<open>Copy\<close> of an instance \<open>d\<close> for transport
  \<open>t2\<close> returns a pointer to a new struct. Every handler lookup on the copy gives what
  it gives on \<open>d\<close>; no callback id resolves on the copy; its sequence counter is 0, the
  value \<open>New\<close> gives it; its four hooks are those of \<open>d\<close> and its transport is \<open>t2\<close>.
  The struct of \<open>d\<close>, its handlers and its callbacks are as before, and so is every
  other object of the store.
\<close>

theorem Copy_spec:
  assumes "wf_state s" and "dnodes s d = Some dn"
  shows "\<exists>c s'. Copy d t2 s = Returns c s'
     \<and> dnodes s c = None \<and> c \<noteq> d
     \<and> dnodes s' c = Some \<lparr>handlers = handlers dn, callbacks = Some (next_addr s), seq = 0,
          transport = t2,
          WrapMethodArgs = WrapMethodArgs dn, WrapCallbackArgs = WrapCallbackArgs dn,
          RunMethod = RunMethod dn, RunCallback = RunCallback dn\<rparr>
     \<and> (\<forall>name. lookup_handler s' c name = lookup_handler s d name)
     \<and> (\<forall>k. lookup_callback s' c k = None)
     \<and> dnodes s' d = Some dn
     \<and> (\<forall>name. lookup_handler s' d name = lookup_handler s d name)
     \<and> (\<forall>k. lookup_callback s' d k = lookup_callback s d k)
     \<and> (\<forall>a. a \<noteq> c \<longrightarrow> dnodes s' a = dnodes s a)
     \<and> hmaps s' = hmaps s
     \<and> (\<forall>a. a \<noteq> next_addr s \<longrightarrow> cmaps s' a = cmaps s a)"
proof -
  from assms have lt: "d < next_addr s" "below (callbacks dn) (next_addr s)"
    by (auto simp: wf_state_def)
  have fresh: "dnodes s (Suc (next_addr s)) = None"
  proof (cases "dnodes s (Suc (next_addr s))")
    case (Some x)
    with assms(1) have "Suc (next_addr s) < next_addr s" by (auto simp: wf_state_def)
    then show ?thesis by simp
  qed simp
  show ?thesis
    using assms lt fresh
    by (auto simp: Copy_def Let_def lookup_handler_def lookup_callback_def hindex_def
          cindex_def below_def split: option.splits)
qed

theorem Copy_spec_witness:
  "Copy 2 (Some 8) with_callback = Returns 4 copied_state
   \<and> dnodes with_callback 4 = None
   \<and> dnodes copied_state 4 =
       Some \<lparr>handlers = Some 0, callbacks = Some 3, seq = 0, transport = Some 8,
             WrapMethodArgs = None, WrapCallbackArgs = None,
             RunMethod = None, RunCallback = None\<rparr>
   \<and> lookup_callback with_callback 2 5 = Some a_func
   \<and> lookup_callback copied_state 2 5 = Some a_func
   \<and> lookup_callback copied_state 4 5 = None
   \<and> dnodes copied_state 2 = dnodes with_callback 2"
proof -
  have n: "next_addr with_callback = 3"
    by (simp add: with_callback_def next_addr_new_state)
  have r: "Copy 2 (Some 8) with_callback = Returns 4 copied_state"
    by (simp add: copied_state_def Copy_def with_callback_dnode n Let_def)
  have a: "lookup_callback with_callback 2 5 = Some a_func"
    by (simp add: lookup_callback_def with_callback_dnode cindex_def)
       (simp add: with_callback_def)
  show ?thesis
    using Copy_spec [OF wf_with_callback with_callback_dnode, of "Some 8"] r a
    by (auto simp: n with_callback_dnode)
qed

text \<open>
  Claim C9. The copy holds the very map reference that the source holds. After
  \<open>Copy\<close>, a handler registered through either of the two pointers is found by a
  lookup through the other, and registering on the copy a name that the source has
  (registered before the copy, or after it) panics as a duplicate.
\<close>

theorem Copy_shares_handlers:
  assumes "Copy d t2 s = Returns c s1"
  shows "(\<exists>dn dc. dnodes s1 d = Some dn \<and> dnodes s1 c = Some dc \<and> handlers dc = handlers dn)
     \<and> (HandleFunc d name f s1 = Returns () s2 \<longrightarrow>
          lookup_handler s2 c name = Some (ValueOf f))
     \<and> (HandleFunc c name f s1 = Returns () s2 \<longrightarrow>
          lookup_handler s2 d name = Some (ValueOf f))
     \<and> (lookup_handler s d name \<noteq> None \<and> name \<noteq> [] \<and> f \<noteq> None \<longrightarrow>
          HandleFunc c name f s1 =
            Panics (Panic ''dnode: handler already exists for method'') s1)
     \<and> (HandleFunc d name f s1 = Returns () s2 \<and> g \<noteq> None \<longrightarrow>
          HandleFunc c name g s2 =
            Panics (Panic ''dnode: handler already exists for method'') s2)"
proof -
  from assms obtain dn where dn: "dnodes s d = Some dn"
    by (auto simp: Copy_def split: option.splits)
  from assms dn have c: "c = Suc (next_addr s)" and
    s1: "s1 = s\<lparr>cmaps := (cmaps s)(next_addr s := Map.empty),
            dnodes := (dnodes s)(c \<mapsto>
              \<lparr>handlers = handlers dn, callbacks = Some (next_addr s), seq = 0, transport = t2,
               WrapMethodArgs = WrapMethodArgs dn, WrapCallbackArgs = WrapCallbackArgs dn,
               RunMethod = RunMethod dn, RunCallback = RunCallback dn\<rparr>),
            next_addr := next_addr s + 2\<rparr>"
    by (auto simp: Copy_def Let_def)
  show ?thesis
    using dn
    by (auto simp: s1 HandleFunc_def lookup_handler_def hindex_def Let_def
          split: option.splits if_splits)
qed

theorem Copy_shares_handlers_witness:
  "Copy 2 (Some 8) with_callback = Returns 4 copied_state
   \<and> HandleFunc 2 ''ping'' (Some a_func) copied_state =
       Returns () (state_of (HandleFunc 2 ''ping'' (Some a_func) copied_state))
   \<and> lookup_handler (state_of (HandleFunc 2 ''ping'' (Some a_func) copied_state)) 4 ''ping''
       = Some a_func
   \<and> HandleFunc 4 ''ping'' (Some a_func) copied_state =
       Returns () (state_of (HandleFunc 4 ''ping'' (Some a_func) copied_state))
   \<and> lookup_handler (state_of (HandleFunc 4 ''ping'' (Some a_func) copied_state)) 2 ''ping''
       = Some a_func
   \<and> HandleFunc 4 ''ping'' (Some a_func)
         (state_of (HandleFunc 2 ''ping'' (Some a_func) copied_state)) =
       Panics (Panic ''dnode: handler already exists for method'')
         (state_of (HandleFunc 2 ''ping'' (Some a_func) copied_state))"
proof -
  have n: "next_addr with_callback = 3"
    by (simp add: with_callback_def next_addr_new_state)
  have r: "Copy 2 (Some 8) with_callback = Returns 4 copied_state"
    by (simp add: copied_state_def Copy_def with_callback_dnode n Let_def)
  have h0: "hmaps copied_state 0 ''ping'' = None"
    by (simp add: copied_state_def Copy_def with_callback_dnode n Let_def)
       (simp add: with_callback_def new_state_def New_def empty_state_def Let_def)
  have d2: "dnodes copied_state 2 = dnodes with_callback 2"
    by (simp add: copied_state_def Copy_def with_callback_dnode n Let_def)
  have d4: "dnodes copied_state 4 =
       Some \<lparr>handlers = Some 0, callbacks = Some 3, seq = 0, transport = Some 8,
             WrapMethodArgs = None, WrapCallbackArgs = None,
             RunMethod = None, RunCallback = None\<rparr>"
    by (simp add: copied_state_def Copy_def with_callback_dnode n Let_def)
  have k: "Kind_of a_func = Func" "ValueOf (Some a_func) = a_func"
    by (simp_all add: a_func_def ValueOf_def)
  have r2: "HandleFunc 2 ''ping'' (Some a_func) copied_state =
       Returns () (state_of (HandleFunc 2 ''ping'' (Some a_func) copied_state))"
    by (simp add: HandleFunc_def d2 with_callback_dnode hindex_def h0 k Let_def)
  have r4: "HandleFunc 4 ''ping'' (Some a_func) copied_state =
       Returns () (state_of (HandleFunc 4 ''ping'' (Some a_func) copied_state))"
    by (simp add: HandleFunc_def d4 hindex_def h0 k Let_def)
  note t = Copy_shares_handlers [OF r, of "''ping''" "Some a_func" _ "Some a_func"]
  show ?thesis
    using t [of "state_of (HandleFunc 2 ''ping'' (Some a_func) copied_state)"]
      t [of "state_of (HandleFunc 4 ''ping'' (Some a_func) copied_state)"] r r2 r4 k
    by simp
qed

subsection \<open>Run\<close>

text \<open>
  Three facts about the loop. While the transport yields messages and each call of
  \<open>processMessage\<close> returns, \<open>Run\<close> goes on; if \<open>Receive\<close> then gives an error,
  \<open>Run\<close> returns it; and whenever \<open>Run\<close> ends, it ends in one of three ways after
  some number of whole turns.
\<close>

lemma Run_feed:
  "feed R P d ms s = Some sn \<Longrightarrow> transport_Receive R d sn = Returns (m, Some e) s' \<Longrightarrow>
   Run R P d log s =
     Some (Returns e s', log @ concat (map turn ms) @ [Receive_call, Receive_return m (Some e)])"
proof (induction ms arbitrary: s log)
  case Nil
  then show ?case by (subst Run.simps) simp
next
  case (Cons a ms)
  from Cons.prems(1) obtain s1 x s2 where
    r: "transport_Receive R d s = Returns (a, None) s1" and
    p: "P d a s1 = Returns x s2" and
    f: "feed R P d ms s2 = Some sn"
    by (auto split: result.splits if_splits)
  have t: "turn a = [Receive_call, Receive_return a None, processMessage_call a,
      processMessage_return a :: 'b event]"
    by (simp add: turn_def)
  show ?case
    by (subst Run.simps) (simp add: r p t Cons.IH [OF f Cons.prems(2)])
qed

lemma Run_ends_aux:
  "Run R P d log s = Some y \<Longrightarrow>
   \<exists>ms sn. feed R P d ms s = Some sn \<and>
     ((\<exists>p s'. transport_Receive R d sn = Panics p s' \<and> fst y = Panics p s'
          \<and> snd y = log @ concat (map turn ms) @ [Receive_call])
      \<or> (\<exists>m e s'. transport_Receive R d sn = Returns (m, Some e) s' \<and> fst y = Returns e s'
          \<and> snd y = log @ concat (map turn ms) @ [Receive_call, Receive_return m (Some e)])
      \<or> (\<exists>m s1 p s'. transport_Receive R d sn = Returns (m, None) s1
          \<and> P d m s1 = Panics p s' \<and> fst y = Panics p s'
          \<and> snd y = log @ concat (map turn ms)
                 @ [Receive_call, Receive_return m None, processMessage_call m]))"
proof (induction rule: Run.raw_induct [rotated 1, consumes 1])
  case (1 Run' R P d log s y)
  show ?case
  proof (cases "transport_Receive R d s")
    case (Panics p s1)
    with 1(2) have "fst y = Panics p s1" "snd y = log @ [Receive_call]" by auto
    with Panics have "feed R P d [] s = Some s \<and> transport_Receive R d s = Panics p s1
       \<and> fst y = Panics p s1 \<and> snd y = log @ concat (map turn []) @ [Receive_call]" by simp
    then show ?thesis by blast
  next
    case (Returns r s1)
    note recv = Returns
    obtain m err where r: "r = (m, err)" by (cases r)
    show ?thesis
    proof (cases err)
      case (Some e)
      with 1(2) Returns r have "fst y = Returns e s1"
        "snd y = log @ [Receive_call, Receive_return m (Some e)]" by auto
      with Returns r Some have "feed R P d [] s = Some s
        \<and> transport_Receive R d s = Returns (m, Some e) s1 \<and> fst y = Returns e s1
        \<and> snd y = log @ concat (map turn []) @ [Receive_call, Receive_return m (Some e)]" by simp
      then show ?thesis by blast
    next
      case None
      show ?thesis
      proof (cases "P d m s1")
        case (Panics p s2)
        with 1(2) recv r None have "fst y = Panics p s2"
          "snd y = log @ [Receive_call, Receive_return m None, processMessage_call m]" by auto
        with recv r None Panics have "feed R P d [] s = Some s
          \<and> transport_Receive R d s = Returns (m, None) s1 \<and> P d m s1 = Panics p s2
          \<and> fst y = Panics p s2
          \<and> snd y = log @ concat (map turn [])
               @ [Receive_call, Receive_return m None, processMessage_call m]" by simp
        then show ?thesis by blast
      next
        case (Returns x s2)
        with 1(2) recv r None have run: "Run' R P d (log @ turn m) s2 = Some y"
          by (simp add: turn_def)
        from 1(1) [OF run] obtain ms sn where
          f: "feed R P d ms s2 = Some sn" and
          e: "(\<exists>p s'. transport_Receive R d sn = Panics p s' \<and> fst y = Panics p s'
                \<and> snd y = (log @ turn m) @ concat (map turn ms) @ [Receive_call])
            \<or> (\<exists>m' e s'. transport_Receive R d sn = Returns (m', Some e) s' \<and> fst y = Returns e s'
                \<and> snd y = (log @ turn m) @ concat (map turn ms)
                       @ [Receive_call, Receive_return m' (Some e)])
            \<or> (\<exists>m' s1 p s'. transport_Receive R d sn = Returns (m', None) s1
                \<and> P d m' s1 = Panics p s' \<and> fst y = Panics p s'
                \<and> snd y = (log @ turn m) @ concat (map turn ms)
                       @ [Receive_call, Receive_return m' None, processMessage_call m'])"
          by blast
        have f': "feed R P d (m # ms) s = Some sn"
          using recv r None Returns f by simp
        have c: "\<And>tl. (log @ turn m) @ concat (map turn ms) @ tl
                    = log @ concat (map turn (m # ms)) @ tl"
          by simp
        show ?thesis
          using f' e unfolding c by blast
      qed
    qed
  qed
qed


lemma Run_continues:
  "feed R P d ms s = Some sn \<Longrightarrow>
   Run R P d log s = Run R P d (log @ concat (map turn ms)) sn"
proof (induction ms arbitrary: s log)
  case Nil
  then show ?case by simp
next
  case (Cons a ms)
  from Cons.prems obtain s1 x s2 where
    r: "transport_Receive R d s = Returns (a, None) s1" and
    p: "P d a s1 = Returns x s2" and
    f: "feed R P d ms s2 = Some sn"
    by (auto split: result.splits if_splits)
  have t: "turn a = [Receive_call, Receive_return a None, processMessage_call a,
      processMessage_return a :: 'b event]"
    by (simp add: turn_def)
  have "Run R P d log s = Run R P d (log @ turn a) s2"
    by (subst Run.simps) (simp add: r p t)
  also have "\<dots> = Run R P d ((log @ turn a) @ concat (map turn ms)) sn"
    by (rule Cons.IH [OF f])
  finally show ?case by simp
qed

lemma script_state_dnode:
  "dnodes (script_state script) 2 =
     Some \<lparr>handlers = Some 0, callbacks = Some 1, seq = 0, transport = Some 7,
           WrapMethodArgs = None, WrapCallbackArgs = None,
           RunMethod = None, RunCallback = None\<rparr>"
  by (simp add: script_state_def New_def empty_state_def Let_def)

lemma script_state_Receive:
  "transport_Receive scripted_Receive 2 (script_state (r # rs)) = Returns r (script_state rs)"
  by (simp add: transport_Receive_def script_state_dnode scripted_Receive_def)
     (simp add: script_state_def New_def empty_state_def Let_def)

lemma script_state_feed:
  "feed scripted_Receive failing_processMessage 2 [[1], [2]]
     (script_state [([1], None), ([2], None), ([], Some ''closed'')])
   = Some (script_state [([], Some ''closed'')])"
  by (simp add: script_state_Receive failing_processMessage_def)

text \<open>
  Claim C1. When the transport yields the messages \<open>ms\<close> in that order and then an
  error, \<open>Run\<close> returns, and the events of the run are one whole turn for each message,
  in the order of receipt, followed by the last \<open>Receive\<close>: the call of
  \<open>processMessage\<close> on a message begins after the message is received and has returned
  before \<open>Receive\<close> is asked for the next one, so no two messages are ever in process
  together. And however \<open>Run\<close> ends, on a return or on a panic, its events are whole
  turns followed by the turn that was cut short.
\<close>

theorem Run_in_receipt_order:
  "(feed R P d ms s = Some sn \<and> transport_Receive R d sn = Returns (m, Some e) s' \<longrightarrow>
      Run R P d log s =
        Some (Returns e s',
              log @ concat (map turn ms) @ [Receive_call, Receive_return m (Some e)]))
   \<and> (Run R P d log s = Some (res, log') \<longrightarrow>
        (\<exists>ms' tl. feed R P d ms' s \<noteq> None \<and> log' = log @ concat (map turn ms') @ tl
           \<and> (tl = [Receive_call]
              \<or> (\<exists>m' e'. tl = [Receive_call, Receive_return m' (Some e')])
              \<or> (\<exists>m'. tl = [Receive_call, Receive_return m' None, processMessage_call m']))))"
proof (intro conjI impI)
  assume "feed R P d ms s = Some sn \<and> transport_Receive R d sn = Returns (m, Some e) s'"
  then have "feed R P d ms s = Some sn" "transport_Receive R d sn = Returns (m, Some e) s'"
    by simp_all
  then show "Run R P d log s =
        Some (Returns e s',
              log @ concat (map turn ms) @ [Receive_call, Receive_return m (Some e)])"
    by (rule Run_feed)
next
  assume "Run R P d log s = Some (res, log')"
  from Run_ends_aux [OF this] obtain ms' sn' where
    f: "feed R P d ms' s = Some sn'" and
    e: "(\<exists>p s'. transport_Receive R d sn' = Panics p s' \<and> res = Panics p s'
          \<and> log' = log @ concat (map turn ms') @ [Receive_call])
      \<or> (\<exists>m e s'. transport_Receive R d sn' = Returns (m, Some e) s' \<and> res = Returns e s'
          \<and> log' = log @ concat (map turn ms') @ [Receive_call, Receive_return m (Some e)])
      \<or> (\<exists>m s1 p s'. transport_Receive R d sn' = Returns (m, None) s1
          \<and> P d m s1 = Panics p s' \<and> res = Panics p s'
          \<and> log' = log @ concat (map turn ms')
                 @ [Receive_call, Receive_return m None, processMessage_call m])"
    by auto
  from e obtain tl where
    "log' = log @ concat (map turn ms') @ tl"
    "tl = [Receive_call]
       \<or> (\<exists>m' e'. tl = [Receive_call, Receive_return m' (Some e')])
       \<or> (\<exists>m'. tl = [Receive_call, Receive_return m' None, processMessage_call m'])"
    by blast
  with f show "\<exists>ms' tl. feed R P d ms' s \<noteq> None \<and> log' = log @ concat (map turn ms') @ tl
           \<and> (tl = [Receive_call]
              \<or> (\<exists>m' e'. tl = [Receive_call, Receive_return m' (Some e')])
              \<or> (\<exists>m'. tl = [Receive_call, Receive_return m' None, processMessage_call m']))"
    by (intro exI [of _ ms'] exI [of _ tl]) simp
qed

theorem Run_in_receipt_order_witness:
  "Run scripted_Receive failing_processMessage 2 []
       (script_state [([1], None), ([2], None), ([], Some ''closed'')])
     = Some (Returns ''closed'' (script_state []),
         [Receive_call, Receive_return [1] None,
          processMessage_call [1], processMessage_return [1],
          Receive_call, Receive_return [2] None,
          processMessage_call [2], processMessage_return [2],
          Receive_call, Receive_return [] (Some ''closed'')])"
proof -
  have c: "[] @ concat (map turn [[1], [2 :: 8 word]]) @ [Receive_call, Receive_return [] (Some ''closed'')]
     = [Receive_call, Receive_return [1] None,
          processMessage_call [1], processMessage_return [1],
          Receive_call, Receive_return [2] None,
          processMessage_call [2], processMessage_return [2],
          Receive_call, Receive_return [] (Some ''closed'')]"
    by (simp add: turn_def)
  show ?thesis
    using Run_in_receipt_order [of scripted_Receive failing_processMessage 2 "[[1], [2]]"
      "script_state [([1], None), ([2], None), ([], Some ''closed'')]"
      "script_state [([], Some ''closed'')]" "[]" "''closed''" "script_state []" "[]"]
      script_state_feed script_state_Receive [of "([], Some ''closed'')" "[]"]
    unfolding c by blast
qed

text \<open>
  Claim C2. \<open>Run\<close> returns the error \<open>e\<close> exactly when, after some number of messages
  received and processed, \<open>Receive\<close> returns \<open>e\<close> as its error. After any number of
  messages received and processed, whatever \<open>processMessage\<close> returned for them,
  \<open>Run\<close> has not returned: it is the same loop, started again in the store reached.
\<close>

theorem Run_returns_iff:
  "((\<exists>log'. Run R P d log s = Some (Returns e s', log')) \<longleftrightarrow>
      (\<exists>ms sn m. feed R P d ms s = Some sn
         \<and> transport_Receive R d sn = Returns (m, Some e) s'))
   \<and> (feed R P d ms s = Some sn \<longrightarrow>
        Run R P d log s = Run R P d (log @ concat (map turn ms)) sn)"
proof (intro conjI iffI impI)
  assume "\<exists>log'. Run R P d log s = Some (Returns e s', log')"
  then obtain log' where "Run R P d log s = Some (Returns e s', log')" ..
  from Run_ends_aux [OF this]
  show "\<exists>ms sn m. feed R P d ms s = Some sn
         \<and> transport_Receive R d sn = Returns (m, Some e) s'"
    by (elim exE conjE disjE) (simp_all, blast)
next
  assume "\<exists>ms sn m. feed R P d ms s = Some sn
         \<and> transport_Receive R d sn = Returns (m, Some e) s'"
  then obtain ms sn m where "feed R P d ms s = Some sn"
    "transport_Receive R d sn = Returns (m, Some e) s'" by blast
  from Run_feed [OF this, of log]
  show "\<exists>log'. Run R P d log s = Some (Returns e s', log')" ..
next
  assume "feed R P d ms s = Some sn"
  then show "Run R P d log s = Run R P d (log @ concat (map turn ms)) sn"
    by (rule Run_continues)
qed

theorem Run_returns_iff_witness:
  "(\<exists>log'. Run scripted_Receive failing_processMessage 2 []
       (script_state [([1], None), ([2], None), ([], Some ''closed'')])
     = Some (Returns ''closed'' (script_state []), log'))
   \<and> Run scripted_Receive failing_processMessage 2 []
       (script_state [([1], None), ([2], None), ([], Some ''closed'')])
     = Run scripted_Receive failing_processMessage 2 (turn [1] @ turn [2])
       (script_state [([], Some ''closed'')])"
proof -
  let ?s = "script_state [([1], None), ([2], None), ([], Some ''closed'')]"
  note t = Run_returns_iff [of scripted_Receive failing_processMessage 2 "[]" ?s
      "''closed''" "script_state []" "[[1], [2]]" "script_state [([], Some ''closed'')]"]
  have ex: "\<exists>ms sn m. feed scripted_Receive failing_processMessage 2 ms ?s = Some sn
         \<and> transport_Receive scripted_Receive 2 sn = Returns (m, Some ''closed'') (script_state [])"
    using script_state_feed script_state_Receive [of "([], Some ''closed'')" "[]"] by blast
  have c: "[] @ concat (map turn [[1], [2 :: 8 word]]) = (turn [1] @ turn [2] :: string event list)"
    by simp
  from t ex have a: "\<exists>log'. Run scripted_Receive failing_processMessage 2 [] ?s
     = Some (Returns ''closed'' (script_state []), log')"
    by blast
  from t script_state_feed have b: "Run scripted_Receive failing_processMessage 2 [] ?s
     = Run scripted_Receive failing_processMessage 2 ([] @ concat (map turn [[1], [2]]))
       (script_state [([], Some ''closed'')])"
    by blast
  show ?thesis
    using a b unfolding c by (rule conjI)
qed

subsection \<open>Callback ids\<close>












subsection \<open>The callbacks field of a Message\<close>







end
